theory Spec2Isabelle
  imports Main
begin

section \<open>Values of the host language\<close>

text \<open>
  Strings are sequences of code units; a \<^typ>\<open>char\<close> stands for a code unit below 256.
  Thrown values are \<open>Error\<close> objects, identified by their message, or any other value.
\<close>

datatype json =
    JNull
  | JBool bool
  | JNum int
  | JStr string
  | JArr "json list"
  | JObj "(string \<times> json) list"

datatype error = Error string | Thrown json

definition newline :: char where
  "newline = CHR 0x0A"

definition dquote :: char where
  "dquote = CHR 0x22"

text \<open>
  The characters matched by \<open>\s\<close> in a regular expression and removed by \<open>trim\<close>:
  tab, line feed, vertical tab, form feed, carriage return, space and no-break space.
\<close>

definition is_space :: "char \<Rightarrow> bool" where
  "is_space c = (c = CHR 0x09 \<or> c = CHR 0x0A \<or> c = CHR 0x0B \<or> c = CHR 0x0C
     \<or> c = CHR 0x0D \<or> c = CHR 0x20 \<or> c = CHR 0xA0)"

text \<open>\<open>xs.join(sep)\<close> on an array of strings.\<close>

fun join :: "string \<Rightarrow> string list \<Rightarrow> string" where
  "join sep [] = []"
| "join sep [x] = x"
| "join sep (x # y # ys) = x @ sep @ join sep (y # ys)"

section \<open>ConversationMemory\<close>

datatype Role = User | Assistant

record MemoryEntry =
  role :: Role
  etext :: string
  timestamp :: nat

record ConversationMemory =
  history :: "MemoryEntry list"
  limit :: int

text \<open>\<open>constructor(private readonly limit = 6)\<close>: an omitted argument is \<open>None\<close>.\<close>

definition new_ConversationMemory :: "int option \<Rightarrow> ConversationMemory" where
  "new_ConversationMemory lim =
     \<lparr>history = [], limit = (case lim of None \<Rightarrow> 6 | Some l \<Rightarrow> l)\<rparr>"

text \<open>
  \<open>append(role, text)\<close>; \<open>now\<close> is the reading of \<open>Date.now()\<close> at the call.
  \<open>slice(start)\<close> with a start beyond the end gives the empty array, as \<^const>\<open>drop\<close> does.
\<close>

definition append :: "ConversationMemory \<Rightarrow> Role \<Rightarrow> string \<Rightarrow> nat \<Rightarrow> ConversationMemory" where
  "append m r t now =
     (let h = history m @ [\<lparr>role = r, etext = t, timestamp = now\<rparr>]
      in if int (length h) > limit m
         then m\<lparr>history := drop (nat (int (length h) - limit m)) h\<rparr>
         else m\<lparr>history := h\<rparr>)"

definition snapshot :: "ConversationMemory \<Rightarrow> MemoryEntry list" where
  "snapshot m = history m"

definition role_name :: "Role \<Rightarrow> string" where
  "role_name r = (case r of User \<Rightarrow> ''user'' | Assistant \<Rightarrow> ''assistant'')"

definition render_entry :: "MemoryEntry \<Rightarrow> string" where
  "render_entry e = ''['' @ role_name (role e) @ ''] '' @ etext e"

definition summarize :: "ConversationMemory \<Rightarrow> string" where
  "summarize m =
     (let summary = join [newline] (map render_entry (history m))
      in if summary = [] then ''Conversation just started.'' else summary)"

text \<open>A sequence of \<open>append\<close> calls, each with its role, text and clock reading.\<close>

definition appends :: "ConversationMemory \<Rightarrow> (Role \<times> string \<times> nat) list \<Rightarrow> ConversationMemory" where
  "appends m calls = foldl (\<lambda>m (r, t, now). append m r t now) m calls"

definition entry_of :: "Role \<times> string \<times> nat \<Rightarrow> MemoryEntry" where
  "entry_of c = (case c of (r, t, now) \<Rightarrow> \<lparr>role = r, etext = t, timestamp = now\<rparr>)"

section \<open>Response synthesis\<close>

text \<open>\<open>s.split(c)\<close> for a one-character separator: never the empty array.\<close>

fun split_on :: "char \<Rightarrow> string \<Rightarrow> string list" where
  "split_on c [] = [[]]"
| "split_on c (x # xs) =
     (if x = c then [] # split_on c xs
      else (case split_on c xs of [] \<Rightarrow> [[x]] | s # ss \<Rightarrow> (x # s) # ss))"

text \<open>\<open>prompt.split("\n").slice(-1)[0] ?? prompt\<close>\<close>

definition last_line :: "string \<Rightarrow> string" where
  "last_line prompt =
     (let segments = split_on newline prompt
      in case drop (length segments - 1) segments of [] \<Rightarrow> prompt | l # _ \<Rightarrow> l)"

text \<open>\<open>s.replace(/\s+/g, " ")\<close>: every maximal run of white space becomes one space.\<close>

function collapse_spaces :: "string \<Rightarrow> string" where
  "collapse_spaces [] = []"
| "collapse_spaces (c # cs) =
     (if is_space c then CHR 0x20 # collapse_spaces (dropWhile is_space cs)
      else c # collapse_spaces cs)"
  by pat_completeness auto
termination
  by (relation "measure length") (auto simp: length_dropWhile_le less_Suc_eq_le)

definition trim :: "string \<Rightarrow> string" where
  "trim s = rev (dropWhile is_space (rev (dropWhile is_space s)))"

text \<open>
  \<open>generateResponse(prompt, toolObservation?)\<close>. The test \<open>if (toolObservation)\<close> holds for
  a string that is present and not empty.
\<close>

definition generateResponse :: "string \<Rightarrow> string option \<Rightarrow> string" where
  "generateResponse prompt toolObservation =
     (let lines = [last_line prompt] @
            (case toolObservation of
               None \<Rightarrow> []
             | Some t \<Rightarrow> if t \<noteq> [] then [t] else []);
          synthesized = trim (collapse_spaces (join '' | '' lines))
      in if synthesized = [] then ''No actionable insight produced.'' else synthesized)"

section \<open>PromptTemplate\<close>

record PromptTemplate =
  template :: string

text \<open>
  \<open>format\<close> builds, for each key, the pattern \<open>{{\s*KEY\s*}}\<close> with the key interpolated
  as it is, and replaces all its matches. The matcher below is the meaning of that pattern
  for a key without regular-expression syntax characters, where the key stands for
  itself; \<open>regexp_plain\<close> delimits those keys. A key with such a character is read as
  pattern syntax (it can match other names, or make the construction of the pattern
  throw) and is outside this matcher.
\<close>

definition syntax_character :: "char \<Rightarrow> bool" where
  "syntax_character c = (c \<in> set [CHR ''^'', CHR ''$'', CHR 0x5C, CHR ''.'', CHR ''*'',
     CHR ''+'', CHR ''?'', CHR ''('', CHR '')'', CHR ''['', CHR '']'', CHR ''{'', CHR ''}'',
     CHR ''|''])"

definition regexp_plain :: "string \<Rightarrow> bool" where
  "regexp_plain key = (\<not> list_ex syntax_character key)"

text \<open>
  After the first \<open>\s*\<close>: the key, then a greedy \<open>\s*\<close>, then \<open>}}\<close>. The result is the
  number of code units matched. The closing braces are no white space, so giving back
  white space of the second \<open>\s*\<close> cannot help.
\<close>

definition match_tail :: "string \<Rightarrow> string \<Rightarrow> nat option" where
  "match_tail key s =
     (if take (length key) s = key
      then (let s' = drop (length key) s; w = length (takeWhile is_space s')
            in if take 2 (drop w s') = ''}}'' then Some (length key + w + 2) else None)
      else None)"

text \<open>
  The first \<open>\s*\<close> is greedy and backtracks: it tries \<open>j\<close> white-space code units, then
  \<open>j - 1\<close>, down to none (a key may itself start with white space).
\<close>

fun match_backtrack :: "string \<Rightarrow> string \<Rightarrow> nat \<Rightarrow> nat option" where
  "match_backtrack key rest 0 = match_tail key rest"
| "match_backtrack key rest (Suc j) =
     (case match_tail key (drop (Suc j) rest) of
        Some n \<Rightarrow> Some (Suc j + n)
      | None \<Rightarrow> match_backtrack key rest j)"

text \<open>A match of the whole pattern at the start of \<open>s\<close>, as the number of code units.\<close>

definition match_at :: "string \<Rightarrow> string \<Rightarrow> nat option" where
  "match_at key s =
     (if take 2 s = ''{{''
      then (let rest = drop 2 s
            in map_option (\<lambda>n. 2 + n)
                 (match_backtrack key rest (length (takeWhile is_space rest))))
      else None)"

text \<open>
  The replacement string of \<open>String.prototype.replace\<close> is a template: \<open>$$\<close> inserts a
  dollar sign, \<open>$&\<close> the match, \<open>$`\<close> the text before it and \<open>$'\<close> the text after it. The
  pattern has no capture group, so \<open>$1\<close> and \<open>$<name>\<close> stay as they are.
\<close>

fun expand :: "string \<Rightarrow> string \<Rightarrow> string \<Rightarrow> string \<Rightarrow> string" where
  "expand [] pre matched post = []"
| "expand [c] pre matched post = [c]"
| "expand (c # d # cs) pre matched post =
     (if c = CHR ''$'' \<and> d = CHR ''$'' then CHR ''$'' # expand cs pre matched post
      else if c = CHR ''$'' \<and> d = CHR ''&'' then matched @ expand cs pre matched post
      else if c = CHR ''$'' \<and> d = CHR 0x60 then pre @ expand cs pre matched post
      else if c = CHR ''$'' \<and> d = CHR 0x27 then post @ expand cs pre matched post
      else c # expand (d # cs) pre matched post)"

lemma match_tail_bounds: "match_tail key s = Some n \<Longrightarrow> 2 \<le> n \<and> n \<le> length s"
proof -
  assume a: "match_tail key s = Some n"
  let ?s' = "drop (length key) s"
  let ?w = "length (takeWhile is_space ?s')"
  from a have k: "take (length key) s = key" and b: "take 2 (drop ?w ?s') = ''}}''"
    and n: "n = length key + ?w + 2"
    by (auto simp: match_tail_def Let_def split: if_splits)
  from b have "length (take 2 (drop ?w ?s')) = 2" by simp
  then have "2 \<le> length (drop ?w ?s')" by simp
  then have "length key + ?w + 2 \<le> length s" by simp
  with n show ?thesis by simp
qed

lemma match_backtrack_bounds:
  "match_backtrack key rest j = Some n \<Longrightarrow> 2 \<le> n \<and> n \<le> length rest"
proof (induction j)
  case 0
  then show ?case using match_tail_bounds [of key rest n] by simp
next
  case (Suc j)
  show ?case
  proof (cases "match_tail key (drop (Suc j) rest)")
    case None
    with Suc show ?thesis by simp
  next
    case (Some k)
    with Suc.prems have n: "n = Suc j + k" by simp
    from match_tail_bounds [OF Some] have "2 \<le> k" "k \<le> length rest - Suc j" by simp_all
    with n show ?thesis by auto
  qed
qed

lemma match_at_bounds: "match_at key s = Some n \<Longrightarrow> 4 \<le> n \<and> n \<le> length s"
  by (auto simp: match_at_def Let_def split: if_splits dest!: match_backtrack_bounds)

text \<open>
  \<open>text.replace(pattern, value)\<close> with the global flag: matches are found from left to
  right and do not overlap; \<open>pre\<close> is the part of the text already passed.
\<close>

function replace_scan :: "string \<Rightarrow> string \<Rightarrow> string \<Rightarrow> string \<Rightarrow> string" where
  "replace_scan key value pre s =
     (case match_at key s of
        Some n \<Rightarrow>
          expand value pre (take n s) (drop n s)
            @ replace_scan key value (pre @ take n s) (drop n s)
      | None \<Rightarrow>
          (case s of
             [] \<Rightarrow> []
           | c # cs \<Rightarrow> c # replace_scan key value (pre @ [c]) cs))"
  by pat_completeness auto
termination
proof (relation "measure (\<lambda>(k, v, b, s). length s)")
  show "wf (measure (\<lambda>(k, v, b, s). length s))" by simp
next
  fix k v b s :: string and n :: nat
  assume "match_at k s = Some n"
  from match_at_bounds [OF this]
  show "((k, v, b @ take n s, drop n s), k, v, b, s) \<in> measure (\<lambda>(k, v, b, s). length s)"
    by auto
next
  fix k v b s cs :: string and c :: char
  assume "s = c # cs"
  then show "((k, v, b @ [c], cs), k, v, b, s) \<in> measure (\<lambda>(k, v, b, s). length s)"
    by simp
qed

declare replace_scan.simps [simp del]

definition replace_all :: "string \<Rightarrow> string \<Rightarrow> string \<Rightarrow> string" where
  "replace_all key value s = replace_scan key value [] s"

text \<open>
  \<open>format(variables)\<close>: \<open>Object.entries(variables).reduce(...)\<close>, the variables as the
  list of their entries in enumeration order.
\<close>

definition format :: "PromptTemplate \<Rightarrow> (string \<times> string) list \<Rightarrow> string" where
  "format p variables =
     foldl (\<lambda>text (key, value). replace_all key value text) (template p) variables"

section \<open>Serialisation and plain objects\<close>

text \<open>
  \<open>JSON.stringify\<close> on strings, integer-valued numbers, booleans, \<open>null\<close>, arrays and
  objects given as the list of their entries in enumeration order.
\<close>

fun digits_of :: "nat \<Rightarrow> string" where
  "digits_of n =
     (if n < 10 then [''0123456789'' ! n]
      else digits_of (n div 10) @ [''0123456789'' ! (n mod 10)])"

definition quote_char :: "char \<Rightarrow> string" where
  "quote_char c =
     (if c = dquote then [CHR 0x5C, dquote]
      else if c = CHR 0x5C then [CHR 0x5C, CHR 0x5C]
      else if c = CHR 0x08 then [CHR 0x5C, CHR ''b'']
      else if c = CHR 0x0C then [CHR 0x5C, CHR ''f'']
      else if c = CHR 0x0A then [CHR 0x5C, CHR ''n'']
      else if c = CHR 0x0D then [CHR 0x5C, CHR ''r'']
      else if c = CHR 0x09 then [CHR 0x5C, CHR ''t'']
      else if (of_char c :: nat) < 32
        then [CHR 0x5C, CHR ''u'', CHR ''0'', CHR ''0'',
              ''0123456789abcdef'' ! (of_char c div 16),
              ''0123456789abcdef'' ! (of_char c mod 16)]
      else [c])"

definition quote :: "string \<Rightarrow> string" where
  "quote s = [dquote] @ concat (map quote_char s) @ [dquote]"

fun stringify :: "json \<Rightarrow> string" where
  "stringify JNull = ''null''"
| "stringify (JBool b) = (if b then ''true'' else ''false'')"
| "stringify (JNum n) = (if n < 0 then ''-'' @ digits_of (nat (- n)) else digits_of (nat n))"
| "stringify (JStr s) = quote s"
| "stringify (JArr xs) = ''['' @ join '','' (map stringify xs) @ '']''"
| "stringify (JObj kvs) =
     ''{'' @ join '','' (map (\<lambda>(k, v). quote k @ '':'' @ stringify v) kvs) @ ''}''"

text \<open>A \<open>Record<string, string>\<close> as the object it is.\<close>

definition record_json :: "(string \<times> string) list \<Rightarrow> json" where
  "record_json obj = JObj (map (\<lambda>(k, v). (k, JStr v)) obj)"

text \<open>
  An object enumerates its array-index keys first, in ascending numeric order, and then
  its other keys in insertion order. An array index is the canonical decimal form of a
  number below \<open>2^32 - 1\<close>.
\<close>

definition array_index :: "string \<Rightarrow> nat option" where
  "array_index k =
     (if k \<noteq> [] \<and> list_all (\<lambda>c. 48 \<le> (of_char c :: nat) \<and> (of_char c :: nat) \<le> 57) k
      then (if k = ''0'' \<or> hd k \<noteq> CHR ''0''
            then (let n = foldl (\<lambda>a c. 10 * a + (of_char c - 48)) (0::nat) k
                  in if n < 4294967295 then Some n else None)
            else None)
      else None)"

fun insert_index :: "nat \<Rightarrow> string \<Rightarrow> string \<Rightarrow> (string \<times> string) list \<Rightarrow> (string \<times> string) list" where
  "insert_index n k v [] = [(k, v)]"
| "insert_index n k v ((k', v') # kvs) =
     (case array_index k' of
        Some n' \<Rightarrow>
          if n' < n then (k', v') # insert_index n k v kvs else (k, v) # (k', v') # kvs
      | None \<Rightarrow> (k, v) # (k', v') # kvs)"

text \<open>
  The assignment \<open>obj[k] = v\<close> on an object created by \<open>{}\<close>, with \<open>v\<close> a string: an
  existing key keeps its place, a new key takes the place the enumeration order gives
  it, and the key \<open>__proto__\<close> reaches the inherited setter, which ignores a string.
\<close>

definition obj_set :: "(string \<times> string) list \<Rightarrow> string \<Rightarrow> string \<Rightarrow> (string \<times> string) list" where
  "obj_set obj k v =
     (if k = ''__proto__'' then obj
      else (case map_of obj k of
              Some _ \<Rightarrow> map (\<lambda>(k', v'). if k' = k then (k', v) else (k', v')) obj
            | None \<Rightarrow>
                (case array_index k of
                   Some n \<Rightarrow> insert_index n k v obj
                 | None \<Rightarrow> obj @ [(k, v)])))"

section \<open>Tools, steps and the workflow\<close>

record ChainContext =
  memory :: ConversationMemory
  metadata :: "(string \<times> json) list"
  toolResults :: "(string \<times> string) list"

text \<open>
  A handler maps the input and the context to a string or throws (a rejected promise is
  a throw at the \<open>await\<close>). It reads the context and leaves it as it is.
\<close>

type_synonym ToolHandler = "string \<Rightarrow> ChainContext \<Rightarrow> error + string"

record LangChainTool =
  name :: string
  description :: string
  handler :: ToolHandler

text \<open>\<open>LangChainTool.invoke(input, context)\<close>\<close>

definition tool_invoke :: "LangChainTool \<Rightarrow> string \<Rightarrow> ChainContext \<Rightarrow> error + string" where
  "tool_invoke t input ctx =
     (case handler t input ctx of
        Inl e \<Rightarrow> Inl e
      | Inr result \<Rightarrow> Inr (name t @ '' ('' @ description t @ ''): '' @ result))"

text \<open>The fields \<open>name\<close> and \<open>prompt\<close> of a step are \<open>step_name\<close> and \<open>step_prompt\<close>.\<close>

record ChainStep =
  step_name :: string
  step_prompt :: PromptTemplate
  tool :: "LangChainTool option"

record StepTrace =
  step :: string
  prompt :: string
  toolResult :: "string option"
  response :: string

record WorkflowResult =
  final :: string
  trace :: "StepTrace list"

text \<open>The field \<open>memory\<close> of the workflow is \<open>wf_memory\<close>.\<close>

record LangChainWorkflow =
  tools :: "string \<rightharpoonup> LangChainTool"
  steps :: "ChainStep list"
  wf_memory :: ConversationMemory

text \<open>\<open>constructor(memoryWindow = 6)\<close>\<close>

definition new_LangChainWorkflow :: "int option \<Rightarrow> LangChainWorkflow" where
  "new_LangChainWorkflow memoryWindow =
     \<lparr>tools = Map.empty, steps = [],
      wf_memory = new_ConversationMemory
        (Some (case memoryWindow of None \<Rightarrow> 6 | Some l \<Rightarrow> l))\<rparr>"

definition registerTool :: "LangChainWorkflow \<Rightarrow> string \<Rightarrow> string \<Rightarrow> ToolHandler \<Rightarrow> LangChainWorkflow" where
  "registerTool w n d h = w\<lparr>tools := (tools w)(n \<mapsto> \<lparr>name = n, description = d, handler = h\<rparr>)\<rparr>"

text \<open>
  \<open>addStep(name, template, toolName?)\<close>. An omitted tool name is \<open>None\<close>; the tests
  \<open>toolName ? ... : undefined\<close> and \<open>toolName && !tool\<close> hold for a name that is present
  and not empty.
\<close>

definition addStep :: "LangChainWorkflow \<Rightarrow> string \<Rightarrow> string \<Rightarrow> string option \<Rightarrow> error + LangChainWorkflow" where
  "addStep w n t toolName =
     (let truthy = (case toolName of None \<Rightarrow> False | Some tn \<Rightarrow> tn \<noteq> []);
          found = (if truthy then tools w (the toolName) else None)
      in if truthy \<and> found = None
         then Inl (Error (''Tool '' @ [dquote] @ the toolName @ [dquote]
                 @ '' has not been registered.''))
         else Inr (w\<lparr>steps := steps w @
                 [\<lparr>step_name = n, step_prompt = \<lparr>template = t\<rparr>, tool = found\<rparr>]\<rparr>))"

text \<open>The variables of one iteration of the loop of \<open>invoke\<close>.\<close>

record loop_state =
  ctx :: ChainContext
  previousOutput :: string
  loop_trace :: "StepTrace list"

definition format_step :: "ChainStep \<Rightarrow> loop_state \<Rightarrow> string" where
  "format_step s st =
     format (step_prompt s)
       [(''input'', previousOutput st),
        (''memory'', summarize (memory (ctx st))),
        (''metadata'', stringify (JObj (metadata (ctx st)))),
        (''toolResults'', stringify (record_json (toolResults (ctx st))))]"

text \<open>The rest of an iteration once the tool, if any, has returned.\<close>

definition record_step :: "ChainStep \<Rightarrow> string \<Rightarrow> string option \<Rightarrow> nat \<Rightarrow> loop_state \<Rightarrow> loop_state" where
  "record_step s p tr now st =
     (let r = generateResponse p tr
      in \<lparr>ctx = (ctx st)\<lparr>memory := append (memory (ctx st)) Assistant r now\<rparr>,
          previousOutput = r,
          loop_trace = loop_trace st @ [\<lparr>step = step_name s, prompt = p, toolResult = tr, response = r\<rparr>]\<rparr>)"

text \<open>One iteration; a throw of the tool leaves the state as it was before the iteration.\<close>

definition exec_step :: "ChainStep \<Rightarrow> nat \<Rightarrow> loop_state \<Rightarrow> error + loop_state" where
  "exec_step s now st =
     (let p = format_step s st
      in case tool s of
           None \<Rightarrow> Inr (record_step s p None now st)
         | Some t \<Rightarrow>
             (case tool_invoke t p (ctx st) of
                Inl e \<Rightarrow> Inl e
              | Inr r \<Rightarrow>
                  Inr (record_step s p (Some r) now
                    (st\<lparr>ctx := (ctx st)
                        \<lparr>toolResults := obj_set (toolResults (ctx st)) (name t) r\<rparr>\<rparr>))))"

text \<open>
  The loop over the steps; \<open>clk i\<close> is the reading of \<open>Date.now()\<close> at the \<open>i\<close>-th append
  of the invocation. The result is the error thrown, if any, and the state reached.
\<close>

fun run_steps :: "(nat \<Rightarrow> nat) \<Rightarrow> nat \<Rightarrow> ChainStep list \<Rightarrow> loop_state \<Rightarrow> error option \<times> loop_state" where
  "run_steps clk i [] st = (None, st)"
| "run_steps clk i (s # ss) st =
     (case exec_step s (clk i) st of
        Inl e \<Rightarrow> (Some e, st)
      | Inr st' \<Rightarrow> run_steps clk (Suc i) ss st')"

definition initial_state :: "LangChainWorkflow \<Rightarrow> string \<Rightarrow> (string \<times> json) list \<Rightarrow> nat \<Rightarrow> loop_state" where
  "initial_state w query md now =
     \<lparr>ctx = \<lparr>memory = append (wf_memory w) User query now, metadata = md, toolResults = []\<rparr>,
      previousOutput = query,
      loop_trace = []\<rparr>"

text \<open>
  \<open>invoke(query, metadata)\<close>: the value returned or the error thrown, and the workflow
  afterwards (its memory is the one object the context refers to).
\<close>

definition invoke :: "LangChainWorkflow \<Rightarrow> string \<Rightarrow> (string \<times> json) list \<Rightarrow> (nat \<Rightarrow> nat)
    \<Rightarrow> (error + WorkflowResult) \<times> LangChainWorkflow" where
  "invoke w query md clk =
     (if length (steps w) = 0
      then (Inl (Error ''No steps registered in the LangChain workflow.''), w)
      else (case run_steps clk 1 (steps w) (initial_state w query md (clk 0)) of
              (err, st) \<Rightarrow>
                ((case err of
                    Some e \<Rightarrow> Inl e
                  | None \<Rightarrow> Inr \<lparr>final = previousOutput st, trace = loop_trace st\<rparr>),
                 w\<lparr>wf_memory := memory (ctx st)\<rparr>)))"

text \<open>
  The loop state at the start of iteration \<open>k\<close> (counted from 0) of an invocation: the
  state the loop reaches on the first \<open>k\<close> steps.
\<close>

definition state_before :: "LangChainWorkflow \<Rightarrow> string \<Rightarrow> (string \<times> json) list \<Rightarrow> (nat \<Rightarrow> nat)
    \<Rightarrow> nat \<Rightarrow> loop_state" where
  "state_before w query md clk k =
     snd (run_steps clk 1 (take k (steps w)) (initial_state w query md (clk 0)))"

text \<open>
  The tool results of a sequence of executed steps, each with its trace entry: the
  assignments of the steps that have a tool, in order, on the empty object.
\<close>

definition tool_results_of :: "(ChainStep \<times> StepTrace) list \<Rightarrow> (string \<times> string) list" where
  "tool_results_of executed =
     foldl (\<lambda>obj (s, e).
        case (tool s, toolResult e) of
          (Some t, Some r) \<Rightarrow> obj_set obj (name t) r
        | _ \<Rightarrow> obj) [] executed"

text \<open>The tool result of the iteration on step \<open>s\<close> from the state \<open>st\<close>, if it has one.\<close>

definition step_tool_result :: "ChainStep \<Rightarrow> loop_state \<Rightarrow> string option" where
  "step_tool_result s st =
     (case tool s of
        None \<Rightarrow> None
      | Some t \<Rightarrow>
          (case tool_invoke t (format_step s st) (ctx st) of
             Inl e \<Rightarrow> None
           | Inr r \<Rightarrow> Some r))"

section \<open>The response as the specification words it\<close>

text \<open>
  The words of a string: its maximal runs of characters that are no white space, in
  order.
\<close>

function tokens :: "string \<Rightarrow> string list" where
  "tokens s =
     (case dropWhile is_space s of
        [] \<Rightarrow> []
      | c # cs \<Rightarrow>
          (c # takeWhile (\<lambda>x. \<not> is_space x) cs) # tokens (dropWhile (\<lambda>x. \<not> is_space x) cs))"
  by pat_completeness auto
termination
proof (relation "measure length")
  show "wf (measure length)" by simp
next
  fix s cs :: string and c :: char
  assume a: "dropWhile is_space s = c # cs"
  have "length (dropWhile (\<lambda>x. \<not> is_space x) cs) \<le> length cs"
    by (rule length_dropWhile_le)
  moreover have "length (c # cs) \<le> length s"
    using length_dropWhile_le [of is_space s] a by simp
  ultimately show "(dropWhile (\<lambda>x. \<not> is_space x) cs, s) \<in> measure length"
    by simp
qed

declare tokens.simps [simp del]

text \<open>The part of the prompt after its last line feed (all of it when it has none).\<close>

definition spec_last_segment :: "string \<Rightarrow> string" where
  "spec_last_segment p = rev (takeWhile (\<lambda>c. c \<noteq> newline) (rev p))"

text \<open>
  Every run of white space collapsed to one space, and the result trimmed: the words
  of the string, one space between two of them.
\<close>

definition spec_normalise :: "string \<Rightarrow> string" where
  "spec_normalise s = join '' '' (tokens s)"

text \<open>
  The last segment of the prompt, followed, when a tool result exists, by the separator
  \<open> | \<close> and the result; normalised; the fallback when nothing is left.
\<close>

definition spec_response :: "string \<Rightarrow> string option \<Rightarrow> string" where
  "spec_response p r =
     (let joined = (case r of None \<Rightarrow> spec_last_segment p
                    | Some t \<Rightarrow> spec_last_segment p @ '' | '' @ t);
          normal = spec_normalise joined
      in if normal = [] then ''No actionable insight produced.'' else normal)"

text \<open>Removal of trailing white space, the second half of \<open>trim\<close>.\<close>

definition rtrim :: "string \<Rightarrow> string" where
  "rtrim t = rev (dropWhile is_space (rev t))"

section \<open>Handlers of the test plan\<close>

text \<open>
  \<open>(input) => `echo:${input.slice(-30)}`\<close> of \<open>tests/langchainWorkflow.test.ts\<close>, and a
  handler that throws.
\<close>

definition echo_handler :: ToolHandler where
  "echo_handler input c = Inr (''echo:'' @ drop (length input - 30) input)"

definition failing_handler :: ToolHandler where
  "failing_handler input c = Inl (Error ''tool failed'')"

text \<open>
  Two small workflows: one whose first step calls the echo tool, and one whose second
  step calls the tool that throws.
\<close>

definition echo_tool :: LangChainTool where
  "echo_tool = \<lparr>name = ''echo'', description = ''d'', handler = echo_handler\<rparr>"

definition failing_tool :: LangChainTool where
  "failing_tool = \<lparr>name = ''fail'', description = ''d'', handler = failing_handler\<rparr>"

definition sample_workflow :: LangChainWorkflow where
  "sample_workflow =
     \<lparr>tools = [''echo'' \<mapsto> echo_tool],
      steps =
        [\<lparr>step_name = ''first'', step_prompt = \<lparr>template = ''Q: {{input}}''\<rparr>,
          tool = Some echo_tool\<rparr>,
         \<lparr>step_name = ''second'', step_prompt = \<lparr>template = ''R: {{toolResults}}''\<rparr>,
          tool = None\<rparr>],
      wf_memory = new_ConversationMemory (Some 4)\<rparr>"

definition failing_workflow :: LangChainWorkflow where
  "failing_workflow =
     \<lparr>tools = [''fail'' \<mapsto> failing_tool],
      steps =
        [\<lparr>step_name = ''first'', step_prompt = \<lparr>template = ''A: {{input}}''\<rparr>,
          tool = None\<rparr>,
         \<lparr>step_name = ''second'', step_prompt = \<lparr>template = ''M: {{memory}}''\<rparr>,
          tool = Some failing_tool\<rparr>],
      wf_memory = new_ConversationMemory (Some 4)\<rparr>"

text \<open>The prompt of the second step of \<open>sample_workflow\<close> on the query \<open>hi\<close>.\<close>

definition sample_second_prompt :: string where
  "sample_second_prompt =
     ''R: {'' @ [dquote] @ ''echo'' @ [dquote] @ '':'' @ [dquote] @ ''echo (d): echo:Q: hi''
       @ [dquote] @ ''}''"

definition sample_result :: WorkflowResult where
  "sample_result =
     \<lparr>final = sample_second_prompt,
      trace =
        [\<lparr>step = ''first'', prompt = ''Q: hi'',
          toolResult = Some ''echo (d): echo:Q: hi'',
          response = ''Q: hi | echo (d): echo:Q: hi''\<rparr>,
         \<lparr>step = ''second'', prompt = sample_second_prompt,
          toolResult = None, response = sample_second_prompt\<rparr>]\<rparr>"

text \<open>
  A workflow like \<open>sample_workflow\<close> whose tool is registered under the name \<open>__proto__\<close>,
  and what \<open>invoke\<close> returns for it on the query \<open>hi\<close>.
\<close>

definition proto_tool :: LangChainTool where
  "proto_tool = \<lparr>name = ''__proto__'', description = ''d'', handler = echo_handler\<rparr>"

definition proto_workflow :: LangChainWorkflow where
  "proto_workflow =
     \<lparr>tools = [''__proto__'' \<mapsto> proto_tool],
      steps =
        [\<lparr>step_name = ''first'', step_prompt = \<lparr>template = ''Q: {{input}}''\<rparr>,
          tool = Some proto_tool\<rparr>,
         \<lparr>step_name = ''second'', step_prompt = \<lparr>template = ''R: {{toolResults}}''\<rparr>,
          tool = None\<rparr>],
      wf_memory = new_ConversationMemory (Some 4)\<rparr>"

definition proto_result :: WorkflowResult where
  "proto_result =
     \<lparr>final = ''R: {}'',
      trace =
        [\<lparr>step = ''first'', prompt = ''Q: hi'',
          toolResult = Some ''__proto__ (d): echo:Q: hi'',
          response = ''Q: hi | __proto__ (d): echo:Q: hi''\<rparr>,
         \<lparr>step = ''second'', prompt = ''R: {}'',
          toolResult = None, response = ''R: {}''\<rparr>]\<rparr>"

section \<open>Bounded memory\<close>

lemma history_append:
  "history (append m r t now) =
     (let h = history m @ [entry_of (r, t, now)]
      in drop (nat (int (length h) - limit m)) h)"
  by (simp add: append_def entry_of_def Let_def)

lemma limit_append: "limit (append m r t now) = limit m"
  by (simp add: append_def Let_def)

lemma limit_appends: "limit (appends m calls) = limit m"
  unfolding appends_def
  by (induction calls arbitrary: m) (auto simp: limit_append)

lemma appends_snoc:
  "appends m (calls @ [(r, t, now)]) = append (appends m calls) r t now"
  by (simp add: appends_def)

lemma history_appends:
  assumes "0 \<le> limit m" and "history m = []"
  shows "history (appends m calls) =
           drop (length calls - nat (limit m)) (map entry_of calls)"
proof (induction calls rule: rev_induct)
  case Nil
  then show ?case by (simp add: appends_def assms)
next
  case (snoc c calls)
  obtain r t now where c: "c = (r, t, now)" by (cases c) auto
  let ?k = "nat (limit m)"
  let ?es = "map entry_of calls"
  have lim: "limit (appends m calls) = limit m" by (rule limit_appends)
  have "history (appends m (calls @ [c])) =
          drop (nat (int (length (drop (length calls - ?k) ?es) + 1) - limit m))
            (drop (length calls - ?k) ?es @ [entry_of c])"
    by (simp add: c appends_snoc history_append lim snoc.IH Let_def)
  also have "nat (int (length (drop (length calls - ?k) ?es) + 1) - limit m)
             = (length calls - (length calls - ?k) + 1) - ?k"
    using assms(1) by (simp add: nat_diff_distrib')
  also have "drop ((length calls - (length calls - ?k) + 1) - ?k)
               (drop (length calls - ?k) ?es @ [entry_of c])
             = drop (length (calls @ [c]) - ?k) (map entry_of (calls @ [c]))"
  proof (cases "length calls \<le> ?k")
    case True
    then show ?thesis by simp
  next
    case False
    then have "length calls - (length calls - ?k) + 1 - ?k = 1" by simp
    moreover have "length (calls @ [c]) - ?k = Suc (length calls - ?k)"
      using False by simp
    ultimately show ?thesis using False
      by (simp add: drop_Suc drop_tl tl_append split: list.splits)
  qed
  finally show ?case .
qed

text \<open>
  C1. On a memory constructed with an entry-count capacity \<open>lim\<close>, after any sequence of
  \<open>append\<close> calls (hence after each call of a longer sequence) the snapshot has at most
  \<open>lim\<close> entries, and it consists of exactly the last \<open>lim\<close> appended entries, oldest
  first, whatever their roles.
\<close>

theorem bounded_memory:
  assumes "0 \<le> lim"
  shows "int (length (snapshot (appends (new_ConversationMemory (Some lim)) calls))) \<le> lim
       \<and> snapshot (appends (new_ConversationMemory (Some lim)) calls)
           = map entry_of (drop (length calls - nat lim) calls)"
proof -
  let ?m = "new_ConversationMemory (Some lim)"
  have h: "history (appends ?m calls) = drop (length calls - nat lim) (map entry_of calls)"
    using history_appends [of ?m calls] assms by (simp add: new_ConversationMemory_def)
  have "length (history (appends ?m calls)) \<le> nat lim"
    by (simp add: h)
  then have "int (length (history (appends ?m calls))) \<le> lim"
    using assms by linarith
  then show ?thesis by (simp add: snapshot_def h drop_map)
qed

theorem bounded_memory_witness:
  "(0::int) \<le> 2
   \<and> int (length (snapshot (appends (new_ConversationMemory (Some 2))
        [(User, ''a'', 1), (Assistant, ''b'', 2), (Assistant, ''c'', 3)]))) \<le> 2
   \<and> snapshot (appends (new_ConversationMemory (Some 2))
        [(User, ''a'', 1), (Assistant, ''b'', 2), (Assistant, ''c'', 3)])
       = [\<lparr>role = Assistant, etext = ''b'', timestamp = 2\<rparr>,
          \<lparr>role = Assistant, etext = ''c'', timestamp = 3\<rparr>]"
  using bounded_memory [of 2 "[(User, ''a'', 1), (Assistant, ''b'', 2), (Assistant, ''c'', 3)]"]
  by (simp add: entry_of_def)

text \<open>
  The bound is about capacities that are entry counts. With a negative \<open>limit\<close> the test
  \<open>length > limit\<close> always holds and \<open>slice\<close> starts beyond the end: nothing is kept.
\<close>

lemma append_negative_limit: "limit m < 0 \<Longrightarrow> history (append m r t now) = []"
  by (simp add: append_def Let_def)

section \<open>Memory summary\<close>

lemma join_eq_Nil:
  assumes "sep \<noteq> []"
  shows "join sep xs = [] \<longleftrightarrow> (xs = [] \<or> xs = [[]])"
  using assms by (induction sep xs rule: join.induct) auto

lemma render_entry_not_Nil: "render_entry e \<noteq> []"
  by (simp add: render_entry_def)

text \<open>
  C9, as the code has it. \<open>summarize\<close> reads the history and returns a string, nothing
  else: on a non-empty memory the entries rendered as \<open>[role] text\<close>, oldest first, joined
  by line feeds; on an empty memory the sentinel \<open>Conversation just started.\<close>, with a
  capital and a full stop.
\<close>

theorem summarize_rendering:
  "summarize m =
     (if history m = [] then ''Conversation just started.''
      else join [newline] (map (\<lambda>e. ''['' @ role_name (role e) @ ''] '' @ etext e) (history m)))"
proof (cases "history m")
  case Nil
  then show ?thesis by (simp add: summarize_def)
next
  case (Cons e es)
  have "join [newline] (map render_entry (history m)) \<noteq> []"
    using Cons render_entry_not_Nil [of e] by (simp add: join_eq_Nil)
  moreover have "render_entry = (\<lambda>e. ''['' @ role_name (role e) @ ''] '' @ etext e)"
    by (simp add: fun_eq_iff render_entry_def)
  ultimately show ?thesis
    using Cons by (simp add: summarize_def Let_def)
qed

theorem summarize_rendering_witness:
  "summarize (appends (new_ConversationMemory None) [(User, ''hi'', 1), (Assistant, ''yo'', 2)])
     = ''[user] hi'' @ [newline] @ ''[assistant] yo''
   \<and> summarize (new_ConversationMemory None) = ''Conversation just started.''"
  using summarize_rendering [of "appends (new_ConversationMemory None) [(User, ''hi'', 1), (Assistant, ''yo'', 2)]"]
    summarize_rendering [of "new_ConversationMemory None"]
  by (simp add: appends_def append_def new_ConversationMemory_def role_name_def)

text \<open>The sentinel of an empty memory is not the string \<open>conversation just started\<close>.\<close>

theorem summarize_sentinel_counterexample:
  "summarize (new_ConversationMemory None) \<noteq> ''conversation just started''"
  by (simp add: summarize_def new_ConversationMemory_def)

section \<open>The guard of an empty workflow\<close>

text \<open>
  C5. With no step configured, \<open>invoke\<close> throws the error with the message
  \<open>No steps registered in the LangChain workflow.\<close> for every query, metadata and clock,
  and the workflow, its memory included, is as it was.
\<close>

theorem invoke_no_steps:
  "steps w = [] \<Longrightarrow>
     invoke w query md clk = (Inl (Error ''No steps registered in the LangChain workflow.''), w)"
  by (simp add: invoke_def)

theorem invoke_no_steps_witness:
  "steps (new_LangChainWorkflow None) = []
   \<and> invoke (new_LangChainWorkflow None) ''x'' [] (\<lambda>i. i)
       = (Inl (Error ''No steps registered in the LangChain workflow.''), new_LangChainWorkflow None)"
  using invoke_no_steps [of "new_LangChainWorkflow None" "''x''" "[]" "\<lambda>i. i"]
  by (simp add: new_LangChainWorkflow_def)

section \<open>Dangling tool references\<close>

text \<open>
  The empty string is a tool name that is not registered in a new workflow, and
  \<open>addStep\<close> with it succeeds: it adds a step without a tool.
\<close>

theorem addStep_empty_name_counterexample:
  "tools (new_LangChainWorkflow None) '''' = None
   \<and> addStep (new_LangChainWorkflow None) ''s'' ''t'' (Some '''')
       = Inr ((new_LangChainWorkflow None)
           \<lparr>steps := [\<lparr>step_name = ''s'', step_prompt = \<lparr>template = ''t''\<rparr>, tool = None\<rparr>]\<rparr>)"
  by (simp add: addStep_def new_LangChainWorkflow_def)

text \<open>
  C6, amended. For a tool name that is not empty and not registered at the call,
  \<open>addStep\<close> throws \<open>Tool "t" has not been registered.\<close> and returns no workflow, so no
  step is added. With a registered name that is not empty it appends a step bound to
  the registered tool; with an omitted or an empty name it appends a step without a tool.
\<close>

theorem addStep_fail_fast:
  "(tn \<noteq> [] \<and> tools w tn = None \<longrightarrow>
      addStep w n t (Some tn)
        = Inl (Error (''Tool '' @ [dquote] @ tn @ [dquote] @ '' has not been registered.'')))
   \<and> (tn \<noteq> [] \<and> tools w tn = Some tool0 \<longrightarrow>
      addStep w n t (Some tn)
        = Inr (w\<lparr>steps := steps w @ [\<lparr>step_name = n, step_prompt = \<lparr>template = t\<rparr>, tool = Some tool0\<rparr>]\<rparr>))
   \<and> addStep w n t None
        = Inr (w\<lparr>steps := steps w @ [\<lparr>step_name = n, step_prompt = \<lparr>template = t\<rparr>, tool = None\<rparr>]\<rparr>)
   \<and> addStep w n t (Some [])
        = Inr (w\<lparr>steps := steps w @ [\<lparr>step_name = n, step_prompt = \<lparr>template = t\<rparr>, tool = None\<rparr>]\<rparr>)"
  by (simp add: addStep_def)

theorem addStep_fail_fast_witness:
  "addStep (new_LangChainWorkflow None) ''s'' ''t'' (Some ''missingTool'')
     = Inl (Error (''Tool '' @ [dquote] @ ''missingTool'' @ [dquote] @ '' has not been registered.''))
   \<and> addStep (registerTool (new_LangChainWorkflow None) ''echo'' ''d'' echo_handler) ''s'' ''t'' (Some ''echo'')
     = Inr ((registerTool (new_LangChainWorkflow None) ''echo'' ''d'' echo_handler)
         \<lparr>steps := [\<lparr>step_name = ''s'', step_prompt = \<lparr>template = ''t''\<rparr>,
                     tool = Some \<lparr>name = ''echo'', description = ''d'', handler = echo_handler\<rparr>\<rparr>]\<rparr>)
   \<and> addStep (new_LangChainWorkflow None) ''s'' ''t'' None
     = Inr ((new_LangChainWorkflow None)
         \<lparr>steps := [\<lparr>step_name = ''s'', step_prompt = \<lparr>template = ''t''\<rparr>, tool = None\<rparr>]\<rparr>)"
  using addStep_fail_fast [of "''missingTool''" "new_LangChainWorkflow None" "''s''" "''t''"]
    addStep_fail_fast [of "''echo''" "registerTool (new_LangChainWorkflow None) ''echo'' ''d'' echo_handler"
      "''s''" "''t''" "\<lparr>name = ''echo'', description = ''d'', handler = echo_handler\<rparr>"]
  by (simp add: new_LangChainWorkflow_def registerTool_def)

section \<open>Template substitution\<close>

text \<open>
  The keys that \<open>invoke\<close> binds have no regular-expression syntax character, and a
  value without a dollar sign is inserted as it is.
\<close>

lemma invoke_keys_plain:
  "list_all regexp_plain [''input'', ''memory'', ''metadata'', ''toolResults'']"
  by (simp add: regexp_plain_def syntax_character_def)

lemma expand_no_dollar: "CHR ''$'' \<notin> set v \<Longrightarrow> expand v pre matched post = v"
  by (induction v pre matched post rule: expand.induct) auto

text \<open>
  The example of the specification: a bound placeholder is replaced, an unbound one
  stays.
\<close>

lemma format_pass_through:
  "format \<lparr>template = ''Hello {{name}}, {{unbound}}''\<rparr> [(''name'', ''Ada'')]
     = ''Hello Ada, {{unbound}}''"
  by (simp add: format_def replace_all_def replace_scan.simps match_at_def match_tail_def is_space_def)

text \<open>
  C8 at a bound value with a dollar pattern: the placeholder bound to \<open>$$\<close> is replaced
  by \<open>$\<close>, not by the bound value.
\<close>

theorem format_dollar_pattern:
  "format \<lparr>template = ''{{name}}''\<rparr> [(''name'', ''$$'')] = ''$''"
  by (simp add: format_def replace_all_def replace_scan.simps match_at_def match_tail_def is_space_def)

section \<open>The loop of invoke\<close>

lemmas eval_defs = invoke_def initial_state_def exec_step_def record_step_def format_step_def
  tool_invoke_def format_def replace_all_def replace_scan.simps match_at_def match_tail_def
  is_space_def generateResponse_def last_line_def trim_def summarize_def render_entry_def
  role_name_def append_def obj_set_def array_index_def record_json_def quote_def quote_char_def
  newline_def dquote_def echo_handler_def failing_handler_def new_ConversationMemory_def Let_def
  echo_tool_def failing_tool_def sample_workflow_def failing_workflow_def
  sample_result_def sample_second_prompt_def

lemma sample_invoke:
  "fst (invoke sample_workflow ''hi'' [] (\<lambda>i. i)) = Inr sample_result"
  by (simp add: eval_defs)

lemma exec_step_Inl:
  "exec_step s now st = Inl e \<longleftrightarrow>
     (\<exists>t. tool s = Some t \<and> handler t (format_step s st) (ctx st) = Inl e)"
  by (auto simp: exec_step_def tool_invoke_def Let_def split: option.splits sum.splits)

lemma exec_step_Inr:
  assumes "exec_step s now st = Inr st'"
  shows "loop_trace st' = loop_trace st @
           [\<lparr>step = step_name s, prompt = format_step s st,
             toolResult = step_tool_result s st, response = previousOutput st'\<rparr>]"
    and "previousOutput st' = generateResponse (format_step s st) (step_tool_result s st)"
    and "memory (ctx st') = append (memory (ctx st)) Assistant (previousOutput st') now"
    and "metadata (ctx st') = metadata (ctx st)"
    and "toolResults (ctx st') =
           (case (tool s, step_tool_result s st) of
              (Some t, Some r) \<Rightarrow> obj_set (toolResults (ctx st)) (name t) r
            | _ \<Rightarrow> toolResults (ctx st))"
    and "case tool s of
           None \<Rightarrow> step_tool_result s st = None
         | Some t \<Rightarrow> \<exists>r. tool_invoke t (format_step s st) (ctx st) = Inr r
                        \<and> step_tool_result s st = Some r"
  using assms
  by (auto simp: exec_step_def record_step_def step_tool_result_def Let_def
           split: option.splits sum.splits)

lemma run_steps_append:
  "run_steps clk i (xs @ ys) st =
     (case run_steps clk i xs st of
        (Some e, st') \<Rightarrow> (Some e, st')
      | (None, st') \<Rightarrow> run_steps clk (i + length xs) ys st')"
  by (induction xs arbitrary: i st) (auto split: sum.splits prod.splits option.splits)

lemma run_steps_snoc_None:
  assumes "run_steps clk i (xs @ [x]) st = (None, st')"
  obtains st1 where "run_steps clk i xs st = (None, st1)"
    and "exec_step x (clk (i + length xs)) st1 = Inr st'"
  using assms
  by (auto simp: run_steps_append split: prod.splits option.splits sum.splits)

lemma run_steps_take:
  assumes "run_steps clk i xs st = (None, st')" and "k \<le> length xs"
  shows "\<exists>st1. run_steps clk i (take k xs) st = (None, st1)
           \<and> run_steps clk (i + k) (drop k xs) st1 = (None, st')"
proof -
  have "run_steps clk i (take k xs @ drop k xs) st = (None, st')"
    using assms(1) by simp
  then show ?thesis
    using assms(2)
    by (auto simp: run_steps_append min_def split: prod.splits option.splits if_splits
          simp del: append_take_drop_id)
qed

lemma run_steps_trace:
  "run_steps clk i xs st = (None, st') \<Longrightarrow>
     \<exists>T. loop_trace st' = loop_trace st @ T \<and> map step T = map step_name xs"
proof (induction xs arbitrary: i st)
  case Nil
  then show ?case by simp
next
  case (Cons x xs)
  from Cons.prems obtain st1 where x: "exec_step x (clk i) st = Inr st1"
    and r: "run_steps clk (Suc i) xs st1 = (None, st')"
    by (auto split: sum.splits)
  from Cons.IH [OF r] obtain T where T: "loop_trace st' = loop_trace st1 @ T"
    "map step T = map step_name xs" by blast
  from exec_step_Inr(1) [OF x] T show ?case by simp
qed

lemma run_steps_previousOutput:
  "run_steps clk i xs st = (None, st') \<Longrightarrow> xs \<noteq> [] \<Longrightarrow>
     previousOutput st' = response (last (loop_trace st'))"
proof (induction xs arbitrary: st' rule: rev_induct)
  case Nil
  then show ?case by simp
next
  case (snoc x xs)
  from snoc.prems(1) obtain st1 where "exec_step x (clk (i + length xs)) st1 = Inr st'"
    by (rule run_steps_snoc_None)
  from exec_step_Inr(1) [OF this] show ?case by simp
qed

lemma invoke_Inr:
  assumes "fst (invoke w query md clk) = Inr res"
  obtains st where "steps w \<noteq> []"
    and "run_steps clk 1 (steps w) (initial_state w query md (clk 0)) = (None, st)"
    and "res = \<lparr>final = previousOutput st, trace = loop_trace st\<rparr>"
  using assms
  by (auto simp: invoke_def split: if_splits prod.splits option.splits)

text \<open>
  C2. A successful \<open>invoke\<close> on a workflow (which then has at least one step) returns a
  trace with one entry per configured step, in the order of the steps and carrying
  their names, and \<open>final\<close> is the response of the last entry.
\<close>

theorem invoke_trace_complete:
  assumes "fst (invoke w query md clk) = Inr res"
  shows "steps w \<noteq> []
       \<and> length (trace res) = length (steps w)
       \<and> map step (trace res) = map step_name (steps w)
       \<and> final res = response (last (trace res))"
proof -
  from assms obtain st where ne: "steps w \<noteq> []"
    and run: "run_steps clk 1 (steps w) (initial_state w query md (clk 0)) = (None, st)"
    and res: "res = \<lparr>final = previousOutput st, trace = loop_trace st\<rparr>"
    by (rule invoke_Inr)
  from run_steps_trace [OF run] have names: "map step (loop_trace st) = map step_name (steps w)"
    by (auto simp: initial_state_def)
  then have "length (map step (loop_trace st)) = length (map step_name (steps w))"
    by simp
  then have len: "length (loop_trace st) = length (steps w)" by simp
  from run_steps_previousOutput [OF run ne] show ?thesis
    using ne names len res by simp
qed

theorem invoke_trace_complete_witness:
  "fst (invoke sample_workflow ''hi'' [] (\<lambda>i. i)) = Inr sample_result
   \<and> length (trace sample_result) = 2
   \<and> map step (trace sample_result) = [''first'', ''second'']
   \<and> final sample_result = response (last (trace sample_result))"
  using invoke_trace_complete [OF sample_invoke] sample_invoke
  by (simp add: sample_workflow_def sample_result_def)

section \<open>A tool that throws\<close>

lemma appends_append: "appends m (xs @ ys) = appends (appends m xs) ys"
  by (simp add: appends_def)

lemma run_steps_memory:
  assumes "loop_trace st = []"
  shows "run_steps clk i xs st = (None, st') \<Longrightarrow>
     length (loop_trace st') = length xs
     \<and> memory (ctx st') = appends (memory (ctx st))
           (map (\<lambda>(j, e). (Assistant, response e, clk (i + j))) (enumerate 0 (loop_trace st')))"
proof (induction xs arbitrary: st' rule: rev_induct)
  case Nil
  then show ?case using assms by (simp add: appends_def)
next
  case (snoc x xs)
  from snoc.prems obtain st1 where r: "run_steps clk i xs st = (None, st1)"
    and x: "exec_step x (clk (i + length xs)) st1 = Inr st'"
    by (rule run_steps_snoc_None)
  note ih = snoc.IH [OF r]
  note tr = exec_step_Inr(1) [OF x]
  note mem = exec_step_Inr(3) [OF x]
  show ?case
    using ih by (simp add: tr mem enumerate_append_eq appends_snoc)
qed

lemma invoke_fails_at:
  assumes "k < length (steps w)"
    and "fst (run_steps clk 1 (take k (steps w)) (initial_state w query md (clk 0))) = None"
    and "tool (steps w ! k) = Some t"
    and "handler t (format_step (steps w ! k) (state_before w query md clk k))
           (ctx (state_before w query md clk k)) = Inl e"
  shows "invoke w query md clk
           = (Inl e, w\<lparr>wf_memory := memory (ctx (state_before w query md clk k))\<rparr>)"
proof -
  let ?init = "initial_state w query md (clk 0)"
  let ?st = "state_before w query md clk k"
  have pre: "run_steps clk 1 (take k (steps w)) ?init = (None, ?st)"
    using assms(2) by (simp add: state_before_def prod_eq_iff)
  have "exec_step (steps w ! k) (clk (1 + k)) ?st = Inl e"
    using assms(3,4) by (simp add: exec_step_Inl)
  then have "run_steps clk (1 + k) (steps w ! k # drop (Suc k) (steps w)) ?st = (Some e, ?st)"
    by simp
  moreover have "steps w = take k (steps w) @ steps w ! k # drop (Suc k) (steps w)"
    using assms(1) by (rule id_take_nth_drop)
  ultimately have "run_steps clk 1 (steps w) ?init = (Some e, ?st)"
    using pre assms(1)
    by (metis (no_types, lifting) run_steps_append case_prod_conv option.simps(4) length_take
          min.absorb2 less_imp_le_nat)
  then show ?thesis
    using assms(1) by (auto simp: invoke_def)
qed

text \<open>
  C4. If the steps before step \<open>k\<close> (counted from 0) do not throw and the handler of the
  tool bound to step \<open>k\<close>, called on the prompt and the context of that iteration,
  throws \<open>e\<close>, then \<open>invoke\<close> throws \<open>e\<close> itself: the result is the error, not a
  WorkflowResult, so no trace, partial or complete, is returned.
\<close>

theorem tool_error_propagates:
  assumes "k < length (steps w)"
    and "fst (run_steps clk 1 (take k (steps w)) (initial_state w query md (clk 0))) = None"
    and "tool (steps w ! k) = Some t"
    and "handler t (format_step (steps w ! k) (state_before w query md clk k))
           (ctx (state_before w query md clk k)) = Inl e"
  shows "fst (invoke w query md clk) = Inl e"
  using invoke_fails_at [OF assms] by simp

lemma failing_prefix:
  "run_steps (\<lambda>i. i) 1 (take 1 (steps failing_workflow)) (initial_state failing_workflow ''hi'' [] 0)
     = (None,
        \<lparr>ctx = \<lparr>memory = \<lparr>history = [\<lparr>role = User, etext = ''hi'', timestamp = 0\<rparr>,
                                       \<lparr>role = Assistant, etext = ''A: hi'', timestamp = 1\<rparr>],
                           limit = 4\<rparr>,
                 metadata = [], toolResults = []\<rparr>,
          previousOutput = ''A: hi'',
          loop_trace = [\<lparr>step = ''first'', prompt = ''A: hi'', toolResult = None,
                         response = ''A: hi''\<rparr>]\<rparr>)"
  by (simp add: eval_defs)

theorem tool_error_propagates_witness:
  "fst (invoke failing_workflow ''hi'' [] (\<lambda>i. i)) = Inl (Error ''tool failed'')"
proof -
  have 1: "1 < length (steps failing_workflow)"
    by (simp add: failing_workflow_def)
  have 2: "fst (run_steps (\<lambda>i. i) 1 (take 1 (steps failing_workflow))
             (initial_state failing_workflow ''hi'' [] ((\<lambda>i. i) 0))) = None"
    using failing_prefix by simp
  have 3: "tool (steps failing_workflow ! 1) = Some failing_tool"
    by (simp add: failing_workflow_def)
  have 4: "handler failing_tool
             (format_step (steps failing_workflow ! 1) (state_before failing_workflow ''hi'' [] (\<lambda>i. i) 1))
             (ctx (state_before failing_workflow ''hi'' [] (\<lambda>i. i) 1)) = Inl (Error ''tool failed'')"
    by (simp add: failing_tool_def failing_handler_def)
  from tool_error_propagates [OF 1 2 3 4] show ?thesis .
qed


text \<open>
  C10. In the same situation the memory of the workflow after the failed \<open>invoke\<close> is
  its memory before, with the user query and then the responses of the \<open>k\<close> steps that
  ran appended (each append trimming to the window); nothing is rolled back. The
  next \<open>invoke\<close> starts from that memory: the summary bound to \<open>memory\<close> at its first step
  is the summary of that memory with the new query appended.
\<close>

theorem memory_not_rolled_back:
  assumes "k < length (steps w)"
    and "fst (run_steps clk 1 (take k (steps w)) (initial_state w query md (clk 0))) = None"
    and "tool (steps w ! k) = Some t"
    and "handler t (format_step (steps w ! k) (state_before w query md clk k))
           (ctx (state_before w query md clk k)) = Inl e"
  shows "fst (invoke w query md clk) = Inl e
       \<and> length (loop_trace (state_before w query md clk k)) = k
       \<and> wf_memory (snd (invoke w query md clk))
           = appends (wf_memory w)
               ((User, query, clk 0) #
                map (\<lambda>(j, tr). (Assistant, response tr, clk (Suc j)))
                  (enumerate 0 (loop_trace (state_before w query md clk k))))
       \<and> format_step s (state_before (snd (invoke w query md clk)) query' md' clk' 0)
           = format (step_prompt s)
               [(''input'', query'),
                (''memory'', summarize (append (wf_memory (snd (invoke w query md clk))) User query' (clk' 0))),
                (''metadata'', stringify (JObj md')),
                (''toolResults'', stringify (record_json []))]"
proof -
  let ?init = "initial_state w query md (clk 0)"
  let ?st = "state_before w query md clk k"
  have inv: "invoke w query md clk = (Inl e, w\<lparr>wf_memory := memory (ctx ?st)\<rparr>)"
    using assms by (rule invoke_fails_at)
  have pre: "run_steps clk 1 (take k (steps w)) ?init = (None, ?st)"
    using assms(2) by (simp add: state_before_def prod_eq_iff)
  have "loop_trace ?init = []" by (simp add: initial_state_def)
  from run_steps_memory [OF this pre]
  have len: "length (loop_trace ?st) = k"
    and mem: "memory (ctx ?st) = appends (memory (ctx ?init))
        (map (\<lambda>(j, tr). (Assistant, response tr, clk (1 + j))) (enumerate 0 (loop_trace ?st)))"
    using assms(1) by simp_all
  have init: "memory (ctx ?init) = appends (wf_memory w) [(User, query, clk 0)]"
    by (simp add: initial_state_def appends_def)
  have "memory (ctx ?st) = appends (appends (wf_memory w) [(User, query, clk 0)])
      (map (\<lambda>(j, tr). (Assistant, response tr, clk (Suc j))) (enumerate 0 (loop_trace ?st)))"
    unfolding mem init by simp
  also have "\<dots> = appends (wf_memory w)
      ([(User, query, clk 0)] @
       map (\<lambda>(j, tr). (Assistant, response tr, clk (Suc j))) (enumerate 0 (loop_trace ?st)))"
    by (simp only: appends_append)
  finally have "memory (ctx ?st) = appends (wf_memory w)
      ((User, query, clk 0) #
       map (\<lambda>(j, tr). (Assistant, response tr, clk (Suc j))) (enumerate 0 (loop_trace ?st)))"
    by simp
  moreover have "format_step s (state_before (snd (invoke w query md clk)) query' md' clk' 0)
      = format (step_prompt s)
          [(''input'', query'),
           (''memory'', summarize (append (wf_memory (snd (invoke w query md clk))) User query' (clk' 0))),
           (''metadata'', stringify (JObj md')),
           (''toolResults'', stringify (record_json []))]"
    by (simp add: format_step_def state_before_def initial_state_def)
  ultimately show ?thesis
    using inv len by simp
qed

lemma failing_first_invoke:
  "snd (invoke failing_workflow ''hi'' [] (\<lambda>i. i))
     = failing_workflow
         \<lparr>wf_memory := \<lparr>history = [\<lparr>role = User, etext = ''hi'', timestamp = 0\<rparr>,
                                    \<lparr>role = Assistant, etext = ''A: hi'', timestamp = 1\<rparr>],
                        limit = 4\<rparr>\<rparr>"
  by (simp add: eval_defs)

theorem memory_not_rolled_back_witness:
  "fst (invoke failing_workflow ''hi'' [] (\<lambda>i. i)) = Inl (Error ''tool failed'')
   \<and> history (wf_memory (snd (invoke failing_workflow ''hi'' [] (\<lambda>i. i))))
       = [\<lparr>role = User, etext = ''hi'', timestamp = 0\<rparr>,
          \<lparr>role = Assistant, etext = ''A: hi'', timestamp = 1\<rparr>]
   \<and> format_step \<lparr>step_name = ''next'', step_prompt = \<lparr>template = ''{{memory}}''\<rparr>, tool = None\<rparr>
         (state_before (snd (invoke failing_workflow ''hi'' [] (\<lambda>i. i))) ''yo'' [] (\<lambda>i. 10 + i) 0)
       = ''[user] hi'' @ [newline] @ ''[assistant] A: hi'' @ [newline] @ ''[user] yo''"
proof -
  have 1: "1 < length (steps failing_workflow)"
    by (simp add: failing_workflow_def)
  have 2: "fst (run_steps (\<lambda>i. i) 1 (take 1 (steps failing_workflow))
             (initial_state failing_workflow ''hi'' [] ((\<lambda>i. i) 0))) = None"
    using failing_prefix by simp
  have 3: "tool (steps failing_workflow ! 1) = Some failing_tool"
    by (simp add: failing_workflow_def)
  have 4: "handler failing_tool
             (format_step (steps failing_workflow ! 1) (state_before failing_workflow ''hi'' [] (\<lambda>i. i) 1))
             (ctx (state_before failing_workflow ''hi'' [] (\<lambda>i. i) 1)) = Inl (Error ''tool failed'')"
    by (simp add: failing_tool_def failing_handler_def)
  note inst = memory_not_rolled_back [OF 1 2 3 4,
      of "\<lparr>step_name = ''next'', step_prompt = \<lparr>template = ''{{memory}}''\<rparr>, tool = None\<rparr>"
         "''yo''" "[]" "\<lambda>i. 10 + i"]
  have a: "fst (invoke failing_workflow ''hi'' [] (\<lambda>i. i)) = Inl (Error ''tool failed'')"
    by (rule inst [THEN conjunct1])
  have b: "history (wf_memory (snd (invoke failing_workflow ''hi'' [] (\<lambda>i. i))))
      = [\<lparr>role = User, etext = ''hi'', timestamp = 0\<rparr>,
         \<lparr>role = Assistant, etext = ''A: hi'', timestamp = 1\<rparr>]"
    by (simp add: failing_first_invoke)
  have c1: "format_step \<lparr>step_name = ''next'', step_prompt = \<lparr>template = ''{{memory}}''\<rparr>, tool = None\<rparr>
         (state_before (snd (invoke failing_workflow ''hi'' [] (\<lambda>i. i))) ''yo'' [] (\<lambda>i. 10 + i) 0)
       = format (step_prompt \<lparr>step_name = ''next'', step_prompt = \<lparr>template = ''{{memory}}''\<rparr>, tool = None\<rparr>)
           [(''input'', ''yo''),
            (''memory'', summarize (append (wf_memory (snd (invoke failing_workflow ''hi'' [] (\<lambda>i. i))))
               User ''yo'' (10 + 0))),
            (''metadata'', stringify (JObj [])),
            (''toolResults'', stringify (record_json []))]"
    by (rule inst [THEN conjunct2, THEN conjunct2, THEN conjunct2])
  have c2: "format (step_prompt \<lparr>step_name = ''next'', step_prompt = \<lparr>template = ''{{memory}}''\<rparr>, tool = None\<rparr>)
           [(''input'', ''yo''),
            (''memory'', summarize (append (wf_memory (snd (invoke failing_workflow ''hi'' [] (\<lambda>i. i))))
               User ''yo'' (10 + 0))),
            (''metadata'', stringify (JObj [])),
            (''toolResults'', stringify (record_json []))]
       = ''[user] hi'' @ [newline] @ ''[assistant] A: hi'' @ [newline] @ ''[user] yo''"
    unfolding failing_first_invoke by (simp add: eval_defs)
  from c1 c2 have c: "format_step \<lparr>step_name = ''next'', step_prompt = \<lparr>template = ''{{memory}}''\<rparr>, tool = None\<rparr>
         (state_before (snd (invoke failing_workflow ''hi'' [] (\<lambda>i. i))) ''yo'' [] (\<lambda>i. 10 + i) 0)
       = ''[user] hi'' @ [newline] @ ''[assistant] A: hi'' @ [newline] @ ''[user] yo''"
    by (rule trans)
  from a b c show ?thesis by (intro conjI)
qed

section \<open>Accumulated tool results\<close>

lemma set_insert_index: "set (insert_index n k v obj) = insert (k, v) (set obj)"
  by (induction obj) (auto split: option.splits if_splits)

lemma set_obj_set: "set (obj_set obj k v) \<subseteq> insert (k, v) (set obj)"
  by (auto simp: obj_set_def set_insert_index split: option.splits if_splits)

lemma obj_set_proto: "obj_set obj ''__proto__'' v = obj"
  by (simp add: obj_set_def)

lemma map_of_overwrite:
  "map_of obj k = Some u \<Longrightarrow>
     map_of (map (\<lambda>(k', v'). if k' = k then (k', v) else (k', v')) obj) k = Some v"
  by (induction obj) (auto split: if_splits)

lemma map_of_insert_index:
  "map_of obj k = None \<Longrightarrow> map_of (insert_index n k v obj) k = Some v"
  by (induction obj) (auto split: option.splits if_splits)

lemma map_of_obj_set:
  "k \<noteq> ''__proto__'' \<Longrightarrow> map_of (obj_set obj k v) k = Some v"
  by (auto simp: obj_set_def map_of_overwrite map_of_insert_index map_add_def split: option.splits)

lemma tool_results_of_snoc:
  "tool_results_of (ex @ [(s, e)]) =
     (case (tool s, toolResult e) of
        (Some t, Some r) \<Rightarrow> obj_set (tool_results_of ex) (name t) r
      | _ \<Rightarrow> tool_results_of ex)"
  by (simp add: tool_results_of_def split: option.splits)

lemma tool_results_of_origin:
  "(n, v) \<in> set (tool_results_of ex) \<Longrightarrow>
     \<exists>s e t. (s, e) \<in> set ex \<and> tool s = Some t \<and> name t = n \<and> toolResult e = Some v"
proof (induction ex arbitrary: n v rule: rev_induct)
  case Nil
  then show ?case by (simp add: tool_results_of_def)
next
  case (snoc x ex)
  obtain s e where x: "x = (s, e)" by (cases x)
  show ?case
  proof (cases "tool s")
    case None
    with snoc x show ?thesis by (fastforce simp: tool_results_of_snoc)
  next
    case (Some t)
    show ?thesis
    proof (cases "toolResult e")
      case None
      with snoc x Some show ?thesis by (fastforce simp: tool_results_of_snoc)
    next
      case (Some r)
      from snoc.prems have "(n, v) \<in> set (obj_set (tool_results_of ex) (name t) r)"
        using x \<open>tool s = Some t\<close> Some by (simp add: tool_results_of_snoc)
      then have "(n, v) = (name t, r) \<or> (n, v) \<in> set (tool_results_of ex)"
        using set_obj_set by fastforce
      then show ?thesis
      proof
        assume "(n, v) = (name t, r)"
        then show ?thesis using x \<open>tool s = Some t\<close> Some by auto
      next
        assume "(n, v) \<in> set (tool_results_of ex)"
        from snoc.IH [OF this] show ?thesis by auto
      qed
    qed
  qed
qed

lemma run_steps_toolResults:
  assumes "loop_trace st = []" and "toolResults (ctx st) = []"
  shows "run_steps clk i xs st = (None, st') \<Longrightarrow>
     toolResults (ctx st') = tool_results_of (zip xs (loop_trace st'))
     \<and> metadata (ctx st') = metadata (ctx st)"
proof (induction xs arbitrary: st' rule: rev_induct)
  case Nil
  then show ?case using assms by (simp add: tool_results_of_def)
next
  case (snoc x xs)
  from snoc.prems obtain st1 where r: "run_steps clk i xs st = (None, st1)"
    and x: "exec_step x (clk (i + length xs)) st1 = Inr st'"
    by (rule run_steps_snoc_None)
  note ih = snoc.IH [OF r]
  from run_steps_memory [OF assms(1) r] have len: "length (loop_trace st1) = length xs"
    by simp
  note tr = exec_step_Inr(1) [OF x]
  have "toolResults (ctx st') =
          (case (tool x, step_tool_result x st1) of
             (Some t, Some r) \<Rightarrow> obj_set (tool_results_of (zip xs (loop_trace st1))) (name t) r
           | _ \<Rightarrow> tool_results_of (zip xs (loop_trace st1)))"
    using exec_step_Inr(5) [OF x] ih by (simp split: option.splits)
  moreover have "zip (xs @ [x]) (loop_trace st') =
      zip xs (loop_trace st1) @
        [(x, \<lparr>step = step_name x, prompt = format_step x st1,
               toolResult = step_tool_result x st1, response = previousOutput st'\<rparr>)]"
    using len by (simp add: tr)
  ultimately show ?case
    using ih exec_step_Inr(4) [OF x] by (simp add: tool_results_of_snoc)
qed

text \<open>The first \<open>j\<close> iterations of a successful invocation.\<close>

lemma invoke_prefix:
  assumes "fst (invoke w query md clk) = Inr res" and "j \<le> length (steps w)"
  shows "run_steps clk 1 (take j (steps w)) (initial_state w query md (clk 0))
           = (None, state_before w query md clk j)"
    and "loop_trace (state_before w query md clk j) = take j (trace res)"
    and "length (trace res) = length (steps w)"
proof -
  let ?init = "initial_state w query md (clk 0)"
  from assms(1) obtain st where
    run: "run_steps clk 1 (steps w) ?init = (None, st)"
    and res: "res = \<lparr>final = previousOutput st, trace = loop_trace st\<rparr>"
    by (rule invoke_Inr)
  have init: "loop_trace ?init = []" by (simp add: initial_state_def)
  from run_steps_take [OF run assms(2)] obtain st1 where
    a: "run_steps clk 1 (take j (steps w)) ?init = (None, st1)"
    and b: "run_steps clk (1 + j) (drop j (steps w)) st1 = (None, st)" by blast
  from a show pre: "run_steps clk 1 (take j (steps w)) ?init = (None, state_before w query md clk j)"
    by (simp add: state_before_def)
  from run_steps_memory [OF init a] assms(2) have "length (loop_trace st1) = j" by simp
  moreover from run_steps_trace [OF b] obtain T where "loop_trace st = loop_trace st1 @ T"
    by blast
  ultimately have "loop_trace st1 = take j (loop_trace st)" by simp
  then show "loop_trace (state_before w query md clk j) = take j (trace res)"
    using a by (simp add: state_before_def res)
  show "length (trace res) = length (steps w)"
    using run_steps_memory [OF init run] by (simp add: res)
qed

text \<open>The iteration on step \<open>k\<close> of a successful invocation.\<close>

lemma invoke_iteration:
  assumes "fst (invoke w query md clk) = Inr res" and "k < length (steps w)"
  shows "exec_step (steps w ! k) (clk (Suc k)) (state_before w query md clk k)
           = Inr (state_before w query md clk (Suc k))"
    and "trace res ! k =
           \<lparr>step = step_name (steps w ! k),
            prompt = format_step (steps w ! k) (state_before w query md clk k),
            toolResult = step_tool_result (steps w ! k) (state_before w query md clk k),
            response = previousOutput (state_before w query md clk (Suc k))\<rparr>"
proof -
  let ?init = "initial_state w query md (clk 0)"
  have "run_steps clk 1 (take k (steps w) @ [steps w ! k]) ?init
          = (None, state_before w query md clk (Suc k))"
    using invoke_prefix(1) [OF assms(1), of "Suc k"] assms(2)
    by (simp add: take_Suc_conv_app_nth)
  then obtain st1 where "run_steps clk 1 (take k (steps w)) ?init = (None, st1)"
    and "exec_step (steps w ! k) (clk (1 + length (take k (steps w)))) st1
           = Inr (state_before w query md clk (Suc k))"
    by (rule run_steps_snoc_None)
  then show ex: "exec_step (steps w ! k) (clk (Suc k)) (state_before w query md clk k)
           = Inr (state_before w query md clk (Suc k))"
    using invoke_prefix(1) [OF assms(1), of k] assms(2) by (simp add: min_def)
  have "k < length (trace res)"
    using invoke_prefix(3) [OF assms(1), of 0] assms(2) by simp
  then have "take (Suc k) (trace res) = take k (trace res) @ [trace res ! k]"
    by (rule take_Suc_conv_app_nth)
  moreover have "take (Suc k) (trace res) = take k (trace res) @
      [\<lparr>step = step_name (steps w ! k),
        prompt = format_step (steps w ! k) (state_before w query md clk k),
        toolResult = step_tool_result (steps w ! k) (state_before w query md clk k),
        response = previousOutput (state_before w query md clk (Suc k))\<rparr>]"
    using exec_step_Inr(1) [OF ex] invoke_prefix(2) [OF assms(1), of k]
      invoke_prefix(2) [OF assms(1), of "Suc k"] assms(2) by simp
  ultimately show "trace res ! k =
           \<lparr>step = step_name (steps w ! k),
            prompt = format_step (steps w ! k) (state_before w query md clk k),
            toolResult = step_tool_result (steps w ! k) (state_before w query md clk k),
            response = previousOutput (state_before w query md clk (Suc k))\<rparr>"
    by simp
qed

lemma invoke_state_before:
  assumes "fst (invoke w query md clk) = Inr res" and "k \<le> length (steps w)"
  shows "toolResults (ctx (state_before w query md clk k))
           = tool_results_of (take k (zip (steps w) (trace res)))"
    and "metadata (ctx (state_before w query md clk k)) = md"
    and "previousOutput (state_before w query md clk k)
           = (if k = 0 then query else response (trace res ! (k - 1)))"
proof -
  let ?init = "initial_state w query md (clk 0)"
  let ?st = "state_before w query md clk k"
  note pre = invoke_prefix(1) [OF assms]
  note tr = invoke_prefix(2) [OF assms]
  have init: "loop_trace ?init = []" "toolResults (ctx ?init) = []" "metadata (ctx ?init) = md"
    "previousOutput ?init = query"
    by (simp_all add: initial_state_def)
  from run_steps_toolResults [OF init(1,2) pre]
  show "toolResults (ctx ?st) = tool_results_of (take k (zip (steps w) (trace res)))"
    and "metadata (ctx ?st) = md"
    by (simp_all add: tr take_zip init(3))
  show "previousOutput ?st = (if k = 0 then query else response (trace res ! (k - 1)))"
  proof (cases k)
    case 0
    then show ?thesis by (simp add: state_before_def init(4))
  next
    case (Suc j)
    then have "take k (steps w) \<noteq> []" using assms(2) by auto
    from run_steps_previousOutput [OF pre this]
    have "previousOutput ?st = response (last (take k (trace res)))" by (simp add: tr)
    moreover have "k \<le> length (trace res)"
      using invoke_prefix(3) [OF assms] assms(2) by simp
    then have "last (take k (trace res)) = trace res ! (k - 1)"
      using Suc by (simp add: take_Suc_conv_app_nth)
    ultimately show ?thesis using Suc by simp
  qed
qed

text \<open>
  What holds of the accumulation in a successful invocation, for every step \<open>k\<close>
  (counted from 0): the prompt of the step is its template formatted with \<open>input\<close>,
  \<open>memory\<close>, \<open>metadata\<close> and \<open>toolResults\<close>, where \<open>toolResults\<close> is the serialisation of
  the results accumulated by the steps before \<open>k\<close> only; every entry of that object is
  the result of the tool of an earlier step, under that tool's name. If step \<open>k\<close> has a
  tool, the tool is invoked with the step's prompt, its wrapped result is the
  \<open>toolResult\<close> of the trace entry and is assigned under the tool's name in the object
  the later steps see. For every name but \<open>__proto__\<close> the assignment stores the result
  and replaces an earlier entry of that name.
\<close>

lemma tool_results_ordering:
  assumes "fst (invoke w query md clk) = Inr res" and "k < length (steps w)"
  shows
    "prompt (trace res ! k) =
       format (step_prompt (steps w ! k))
         [(''input'', if k = 0 then query else response (trace res ! (k - 1))),
          (''memory'', summarize (memory (ctx (state_before w query md clk k)))),
          (''metadata'', stringify (JObj md)),
          (''toolResults'',
             stringify (record_json (tool_results_of (take k (zip (steps w) (trace res))))))]
     \<and> toolResults (ctx (state_before w query md clk k))
         = tool_results_of (take k (zip (steps w) (trace res)))
     \<and> (\<forall>(n, v) \<in> set (tool_results_of (take k (zip (steps w) (trace res)))).
           \<exists>j<k. \<exists>t. tool (steps w ! j) = Some t \<and> name t = n
             \<and> toolResult (trace res ! j) = Some v)
     \<and> (case tool (steps w ! k) of
           None \<Rightarrow>
             toolResult (trace res ! k) = None
             \<and> tool_results_of (take (Suc k) (zip (steps w) (trace res)))
                 = tool_results_of (take k (zip (steps w) (trace res)))
         | Some t \<Rightarrow>
             \<exists>r. tool_invoke t (prompt (trace res ! k)) (ctx (state_before w query md clk k)) = Inr r
               \<and> toolResult (trace res ! k) = Some r
               \<and> tool_results_of (take (Suc k) (zip (steps w) (trace res)))
                   = obj_set (tool_results_of (take k (zip (steps w) (trace res)))) (name t) r
               \<and> (name t \<noteq> ''__proto__'' \<longrightarrow>
                    map_of (tool_results_of (take (Suc k) (zip (steps w) (trace res)))) (name t)
                      = Some r))"
proof -
  let ?st = "state_before w query md clk k"
  let ?s = "steps w ! k"
  let ?zs = "zip (steps w) (trace res)"
  have le: "k \<le> length (steps w)" using assms(2) by simp
  note ex = invoke_iteration(1) [OF assms]
  note entry = invoke_iteration(2) [OF assms]
  note tr = invoke_state_before(1) [OF assms(1) le]
  note md = invoke_state_before(2) [OF assms(1) le]
  note inp = invoke_state_before(3) [OF assms(1) le]
  have len: "length (trace res) = length (steps w)"
    by (rule invoke_prefix(3) [OF assms(1), of 0]) simp
  have p: "prompt (trace res ! k) = format_step ?s ?st" by (simp add: entry)
  have r: "toolResult (trace res ! k) = step_tool_result ?s ?st" by (simp add: entry)
  have 1: "prompt (trace res ! k) =
       format (step_prompt ?s)
         [(''input'', if k = 0 then query else response (trace res ! (k - 1))),
          (''memory'', summarize (memory (ctx ?st))),
          (''metadata'', stringify (JObj md)),
          (''toolResults'', stringify (record_json (tool_results_of (take k ?zs))))]"
    unfolding p format_step_def tr md inp ..
  have 3: "\<forall>(n, v) \<in> set (tool_results_of (take k ?zs)).
      \<exists>j<k. \<exists>t. tool (steps w ! j) = Some t \<and> name t = n \<and> toolResult (trace res ! j) = Some v"
  proof (clarify)
    fix n v
    assume "(n, v) \<in> set (tool_results_of (take k ?zs))"
    from tool_results_of_origin [OF this] obtain s e t where
      se: "(s, e) \<in> set (take k ?zs)" and t: "tool s = Some t" "name t = n" "toolResult e = Some v"
      by blast
    from se obtain j where j: "j < length (take k ?zs)" "take k ?zs ! j = (s, e)"
      by (auto simp: in_set_conv_nth)
    then have "j < k" "s = steps w ! j" "e = trace res ! j"
      using len assms(2) by auto
    with t show "\<exists>j<k. \<exists>t. tool (steps w ! j) = Some t \<and> name t = n
        \<and> toolResult (trace res ! j) = Some v"
      by blast
  qed
  have snoc: "take (Suc k) ?zs = take k ?zs @ [(?s, trace res ! k)]"
    using assms(2) len by (simp add: take_Suc_conv_app_nth)
  have 4: "case tool ?s of
           None \<Rightarrow>
             toolResult (trace res ! k) = None
             \<and> tool_results_of (take (Suc k) ?zs) = tool_results_of (take k ?zs)
         | Some t \<Rightarrow>
             \<exists>r. tool_invoke t (prompt (trace res ! k)) (ctx ?st) = Inr r
               \<and> toolResult (trace res ! k) = Some r
               \<and> tool_results_of (take (Suc k) ?zs)
                   = obj_set (tool_results_of (take k ?zs)) (name t) r
               \<and> (name t \<noteq> ''__proto__'' \<longrightarrow>
                    map_of (tool_results_of (take (Suc k) ?zs)) (name t) = Some r)"
    using exec_step_Inr(6) [OF ex]
    by (auto simp: snoc tool_results_of_snoc p r map_of_obj_set split: option.splits)
  from 1 tr 3 4 show ?thesis by (intro conjI)
qed


text \<open>The accumulation on \<open>sample_workflow\<close>.\<close>

lemma tool_results_ordering_sample:
  "fst (invoke sample_workflow ''hi'' [] (\<lambda>i. i)) = Inr sample_result
   \<and> (1::nat) < length (steps sample_workflow)
   \<and> prompt (trace sample_result ! 1) = sample_second_prompt
   \<and> tool_results_of (take 1 (zip (steps sample_workflow) (trace sample_result)))
       = [(''echo'', ''echo (d): echo:Q: hi'')]
   \<and> toolResults (ctx (state_before sample_workflow ''hi'' [] (\<lambda>i. i) 1))
       = [(''echo'', ''echo (d): echo:Q: hi'')]"
proof -
  have 1: "(1::nat) < length (steps sample_workflow)"
    by (simp add: sample_workflow_def)
  note inst = tool_results_ordering [OF sample_invoke 1]
  have p: "prompt (trace sample_result ! 1) = sample_second_prompt"
    by (simp add: sample_result_def)
  have e: "tool_results_of (take 1 (zip (steps sample_workflow) (trace sample_result)))
       = [(''echo'', ''echo (d): echo:Q: hi'')]"
    by (simp add: tool_results_of_def obj_set_def array_index_def sample_workflow_def
          sample_result_def echo_tool_def)
  have t: "toolResults (ctx (state_before sample_workflow ''hi'' [] (\<lambda>i. i) 1))
       = [(''echo'', ''echo (d): echo:Q: hi'')]"
    using inst [THEN conjunct2, THEN conjunct1] e by simp
  from sample_invoke 1 p e t show ?thesis by (intro conjI)
qed

text \<open>
  C3, at a tool registered under the name \<open>__proto__\<close>. The registry, a \<open>Map\<close>, accepts
  the name and \<open>addStep\<close> binds the tool; the step invokes it and its wrapped result is
  the \<open>toolResult\<close> of the trace entry. The assignment under the tool's name in
  \<open>context.toolResults\<close>, an object created by \<open>{}\<close>, stores nothing: the object is still
  empty when the next step is formatted, and that step's prompt serialises it as \<open>{}\<close>.
\<close>

theorem proto_tool_result_not_stored:
  "addStep (registerTool (new_LangChainWorkflow (Some 4)) ''__proto__'' ''d'' echo_handler)
       ''first'' ''Q: {{input}}'' (Some ''__proto__'')
     = Inr (proto_workflow\<lparr>steps := [steps proto_workflow ! 0]\<rparr>)
   \<and> fst (invoke proto_workflow ''hi'' [] (\<lambda>i. i)) = Inr proto_result
   \<and> tool (steps proto_workflow ! 0) = Some proto_tool
   \<and> toolResult (trace proto_result ! 0) = Some ''__proto__ (d): echo:Q: hi''
   \<and> toolResults (ctx (state_before proto_workflow ''hi'' [] (\<lambda>i. i) 1)) = []
   \<and> map_of (toolResults (ctx (state_before proto_workflow ''hi'' [] (\<lambda>i. i) 1))) ''__proto__''
       = None
   \<and> prompt (trace proto_result ! 1) = ''R: {}''"
proof -
  have a: "addStep (registerTool (new_LangChainWorkflow (Some 4)) ''__proto__'' ''d'' echo_handler)
       ''first'' ''Q: {{input}}'' (Some ''__proto__'')
     = Inr (proto_workflow\<lparr>steps := [steps proto_workflow ! 0]\<rparr>)"
    by (simp add: addStep_def registerTool_def new_LangChainWorkflow_def proto_workflow_def
          proto_tool_def Let_def)
  have b: "fst (invoke proto_workflow ''hi'' [] (\<lambda>i. i)) = Inr proto_result"
    by (simp add: proto_workflow_def proto_tool_def proto_result_def eval_defs)
  have c: "tool (steps proto_workflow ! 0) = Some proto_tool"
    by (simp add: proto_workflow_def)
  have d: "toolResult (trace proto_result ! 0) = Some ''__proto__ (d): echo:Q: hi''"
    by (simp add: proto_result_def)
  have e: "toolResults (ctx (state_before proto_workflow ''hi'' [] (\<lambda>i. i) 1)) = []"
    by (simp add: state_before_def proto_workflow_def proto_tool_def eval_defs)
  have f: "prompt (trace proto_result ! 1) = ''R: {}''"
    by (simp add: proto_result_def)
  from a b c d e f show ?thesis by simp
qed

section \<open>Response synthesis, checked against its wording\<close>

lemma split_on_not_Nil: "split_on c xs \<noteq> []"
  by (induction xs) (auto split: list.splits)

lemma split_on_no_sep: "c \<notin> set xs \<Longrightarrow> split_on c xs = [xs]"
  by (induction xs) auto

lemma split_on_sep: "c \<in> set xs \<Longrightarrow> tl (split_on c xs) \<noteq> []"
  by (induction xs) (auto simp: split_on_not_Nil split: list.splits)

lemma last_split_on:
  "last (split_on c xs) = rev (takeWhile (\<lambda>y. y \<noteq> c) (rev xs))"
proof (induction xs)
  case Nil
  then show ?case by simp
next
  case (Cons x xs)
  show ?case
  proof (cases "c \<in> set xs")
    case False
    then have all: "\<And>y. y \<in> set (rev xs) \<Longrightarrow> y \<noteq> c" by auto
    have "takeWhile (\<lambda>y. y \<noteq> c) (rev xs @ [x]) = rev xs @ takeWhile (\<lambda>y. y \<noteq> c) [x]"
      using all by (rule takeWhile_append2)
    then have "rev (takeWhile (\<lambda>y. y \<noteq> c) (rev (x # xs))) = (if x = c then xs else x # xs)"
      by simp
    moreover have "last (split_on c (x # xs)) = (if x = c then xs else x # xs)"
      using False by (simp add: split_on_no_sep)
    ultimately show ?thesis by simp
  next
    case True
    then have "takeWhile (\<lambda>y. y \<noteq> c) (rev xs @ [x]) = takeWhile (\<lambda>y. y \<noteq> c) (rev xs)"
      by (intro takeWhile_append1 [of c]) auto
    moreover from split_on_sep [OF True] obtain s t ss where "split_on c xs = s # t # ss"
      by (cases "split_on c xs") (auto simp: neq_Nil_conv)
    ultimately show ?thesis using Cons.IH by simp
  qed
qed

lemma drop_to_last: "xs \<noteq> [] \<Longrightarrow> drop (length xs - Suc 0) xs = [last xs]"
  by (induction xs rule: rev_induct) auto

lemma last_line_spec: "last_line p = spec_last_segment p"
  by (simp add: last_line_def spec_last_segment_def Let_def drop_to_last split_on_not_Nil
        last_split_on)


lemma trim_rtrim: "trim s = rtrim (dropWhile is_space s)"
  by (simp add: trim_def rtrim_def)

lemma collapse_spaces_word:
  "(\<And>x. x \<in> set w \<Longrightarrow> \<not> is_space x) \<Longrightarrow> collapse_spaces (w @ r) = w @ collapse_spaces r"
  by (induction w) auto

lemma collapse_spaces_gap:
  "r = [] \<or> is_space (hd r) \<Longrightarrow>
     collapse_spaces r = (if r = [] then [] else CHR 0x20 # collapse_spaces (dropWhile is_space r))"
  by (cases r) auto

lemma dropWhile_collapse_spaces:
  "dropWhile is_space (collapse_spaces s) = collapse_spaces (dropWhile is_space s)"
proof (cases s)
  case Nil
  then show ?thesis by simp
next
  case (Cons c cs)
  have stable: "dropWhile is_space (collapse_spaces u) = collapse_spaces u"
    if "u = [] \<or> \<not> is_space (hd u)" for u
    using that by (cases u) auto
  have "dropWhile is_space cs = [] \<or> \<not> is_space (hd (dropWhile is_space cs))"
    using hd_dropWhile [of is_space cs] by auto
  from stable [OF this] show ?thesis
    using Cons by (simp add: is_space_def)
qed

lemma rtrim_word:
  assumes "\<And>x. x \<in> set w \<Longrightarrow> \<not> is_space x"
  shows "rtrim (w @ t) = w @ rtrim t"
proof -
  have w: "dropWhile is_space (rev w) = rev w"
    using assms by (cases "rev w") (auto simp: rev_eq_Cons_iff)
  show ?thesis
    by (simp add: rtrim_def dropWhile_append w)
qed

lemma rtrim_space:
  "is_space a \<Longrightarrow> rtrim (a # x) = (if rtrim x = [] then [] else a # rtrim x)"
  by (auto simp: rtrim_def dropWhile_append)

lemma is_space_blank: "is_space (CHR 0x20)"
  by (simp add: is_space_def)

lemma tokens_Nil: "tokens [] = []"
  by (simp add: tokens.simps)

lemma tokens_no_empty: "[] \<notin> set (tokens s)"
proof (induction s rule: tokens.induct)
  case (1 s)
  show ?case
  proof (cases "dropWhile is_space s")
    case Nil
    show ?thesis unfolding tokens.simps [of s] Nil by simp
  next
    case (Cons c cs)
    from "1.IH" [OF Cons] show ?thesis
      unfolding tokens.simps [of s] Cons by simp
  qed
qed

lemma join_tokens_Nil: "join '' '' (tokens s) = [] \<longleftrightarrow> tokens s = []"
  using tokens_no_empty [of s] by (auto simp: join_eq_Nil)

lemma join_Cons: "join sep (x # xs) = (if xs = [] then x else x @ sep @ join sep xs)"
  by (cases xs) auto

lemma rtrim_collapse_spaces:
  "rtrim (collapse_spaces (dropWhile is_space s)) = join '' '' (tokens s)"
proof (induction s rule: tokens.induct)
  case (1 s)
  show ?case
  proof (cases "dropWhile is_space s")
    case Nil
    show ?thesis unfolding tokens.simps [of s] Nil by (simp add: rtrim_def)
  next
    case (Cons c cs)
    let ?w = "c # takeWhile (\<lambda>x. \<not> is_space x) cs"
    let ?r = "dropWhile (\<lambda>x. \<not> is_space x) cs"
    have c: "\<not> is_space c"
      using hd_dropWhile [of is_space s] Cons by auto
    have w: "\<And>x. x \<in> set ?w \<Longrightarrow> \<not> is_space x"
      using c by (auto dest: set_takeWhileD)
    have r: "?r = [] \<or> is_space (hd ?r)"
      using hd_dropWhile [of "\<lambda>x. \<not> is_space x" cs] by auto
    have split: "dropWhile is_space s = ?w @ ?r"
      using Cons by simp
    have tok: "tokens s = ?w # tokens ?r"
      using Cons by (simp add: tokens.simps [of s])
    note ih = "1.IH" [OF Cons]
    have "rtrim (collapse_spaces (dropWhile is_space s)) = ?w @ rtrim (collapse_spaces ?r)"
      unfolding split by (simp only: collapse_spaces_word [OF w] rtrim_word [OF w])
    also have "rtrim (collapse_spaces ?r) =
        (if join '' '' (tokens ?r) = [] then [] else CHR 0x20 # join '' '' (tokens ?r))"
    proof (cases "?r = []")
      case True
      show ?thesis unfolding True by (simp add: tokens_Nil rtrim_def)
    next
      case False
      then have "collapse_spaces ?r = CHR 0x20 # collapse_spaces (dropWhile is_space ?r)"
        using collapse_spaces_gap [OF r] by simp
      then show ?thesis
        by (simp add: rtrim_space [OF is_space_blank] ih)
    qed
    also have "?w @ (if join '' '' (tokens ?r) = [] then [] else CHR 0x20 # join '' '' (tokens ?r))
        = join '' '' (tokens s)"
      by (simp add: tok join_Cons join_tokens_Nil)
    finally show ?thesis .
  qed
qed

lemma trim_collapse_spaces: "trim (collapse_spaces s) = spec_normalise s"
  by (simp add: trim_rtrim dropWhile_collapse_spaces rtrim_collapse_spaces spec_normalise_def)

text \<open>
  On every prompt, and on every tool result that is absent or is not the empty string,
  the response is the one the wording describes.
\<close>

lemma generateResponse_nonempty:
  "r \<noteq> Some [] \<Longrightarrow> generateResponse p r = spec_response p r"
  by (cases r)
    (simp_all add: generateResponse_def spec_response_def Let_def trim_collapse_spaces
       last_line_spec)

text \<open>
  The tool result that \<open>invoke\<close> passes on is absent or is the wrapped output of
  \<open>LangChainTool.invoke\<close>, which starts with the name, a space and a bracket: it is never
  the empty string.
\<close>

lemma tool_invoke_not_Nil: "tool_invoke t input c = Inr out \<Longrightarrow> out \<noteq> []"
  by (auto simp: tool_invoke_def split: sum.splits)

lemma step_tool_result_not_Nil: "step_tool_result s st \<noteq> Some []"
  by (auto simp: step_tool_result_def split: option.splits sum.splits dest: tool_invoke_not_Nil)

text \<open>
  C7. For every prompt and every tool result the engine has (none, or the wrapped
  result a tool returned), the synthesized response is the last line-feed separated
  segment of the prompt, followed by \<open> | \<close> and the tool result when there is one, with
  every run of white space collapsed to one space and the ends trimmed, and it is
  \<open>No actionable insight produced.\<close> when nothing is left. So is the response of every
  trace entry of a successful \<open>invoke\<close>, for the prompt and the tool result of that entry.
\<close>

theorem generateResponse_spec:
  "generateResponse p None = spec_response p None
   \<and> (tool_invoke t input c = Inr out \<longrightarrow>
        generateResponse p (Some out) = spec_response p (Some out))
   \<and> (fst (invoke w query md clk) = Inr res \<and> k < length (steps w) \<longrightarrow>
        response (trace res ! k)
          = generateResponse (prompt (trace res ! k)) (toolResult (trace res ! k))
        \<and> response (trace res ! k)
          = spec_response (prompt (trace res ! k)) (toolResult (trace res ! k)))"
proof (intro conjI impI)
  show "generateResponse p None = spec_response p None"
    by (simp add: generateResponse_nonempty)
next
  assume "tool_invoke t input c = Inr out"
  then have "Some out \<noteq> Some []" by (simp add: tool_invoke_not_Nil)
  then show "generateResponse p (Some out) = spec_response p (Some out)"
    by (rule generateResponse_nonempty)
next
  assume a: "fst (invoke w query md clk) = Inr res \<and> k < length (steps w)"
  let ?s = "steps w ! k"
  let ?st = "state_before w query md clk k"
  from a have inv: "fst (invoke w query md clk) = Inr res" and k: "k < length (steps w)"
    by simp_all
  note ex = invoke_iteration(1) [OF inv k]
  note entry = invoke_iteration(2) [OF inv k]
  have "response (trace res ! k) = generateResponse (format_step ?s ?st) (step_tool_result ?s ?st)"
    using exec_step_Inr(2) [OF ex] by (simp add: entry)
  then show g: "response (trace res ! k)
      = generateResponse (prompt (trace res ! k)) (toolResult (trace res ! k))"
    by (simp add: entry)
  have "toolResult (trace res ! k) \<noteq> Some []"
    using step_tool_result_not_Nil [of ?s ?st] by (simp add: entry)
  from generateResponse_nonempty [OF this] g
  show "response (trace res ! k)
      = spec_response (prompt (trace res ! k)) (toolResult (trace res ! k))"
    by simp
qed

theorem generateResponse_spec_witness:
  "generateResponse (''x'' @ [newline] @ ''  '') None = ''No actionable insight produced.''
   \<and> spec_response (''x'' @ [newline] @ ''  '') None = ''No actionable insight produced.''
   \<and> tool_invoke echo_tool ''Q: hi'' \<lparr>memory = new_ConversationMemory None, metadata = [],
         toolResults = []\<rparr> = Inr ''echo (d): echo:Q: hi''
   \<and> generateResponse (''line one'' @ [newline] @ ''  line   two '') (Some ''echo (d): echo:Q: hi'')
       = ''line two | echo (d): echo:Q: hi''
   \<and> spec_response (''line one'' @ [newline] @ ''  line   two '') (Some ''echo (d): echo:Q: hi'')
       = ''line two | echo (d): echo:Q: hi''
   \<and> fst (invoke sample_workflow ''hi'' [] (\<lambda>i. i)) = Inr sample_result
   \<and> (0::nat) < length (steps sample_workflow)
   \<and> spec_response (prompt (trace sample_result ! 0)) (toolResult (trace sample_result ! 0))
       = ''Q: hi | echo (d): echo:Q: hi''"
proof -
  let ?c = "\<lparr>memory = new_ConversationMemory None, metadata = [], toolResults = []\<rparr>"
  let ?p = "''line one'' @ [newline] @ ''  line   two ''"
  note inst = generateResponse_spec [of "''x'' @ [newline] @ ''  ''" echo_tool "''Q: hi''" ?c
      "''echo (d): echo:Q: hi''" sample_workflow "''hi''" "[]" "\<lambda>i. i" sample_result 0]
  note inst2 = generateResponse_spec [of ?p echo_tool "''Q: hi''" ?c
      "''echo (d): echo:Q: hi''" sample_workflow "''hi''" "[]" "\<lambda>i. i" sample_result 0]
  have a: "generateResponse (''x'' @ [newline] @ ''  '') None = ''No actionable insight produced.''"
    by (simp add: generateResponse_def last_line_def trim_def is_space_def newline_def)
  have a': "spec_response (''x'' @ [newline] @ ''  '') None = ''No actionable insight produced.''"
    using inst [THEN conjunct1] a by simp
  have t: "tool_invoke echo_tool ''Q: hi'' ?c = Inr ''echo (d): echo:Q: hi''"
    by (simp add: tool_invoke_def echo_tool_def echo_handler_def)
  have b: "generateResponse ?p (Some ''echo (d): echo:Q: hi'') = ''line two | echo (d): echo:Q: hi''"
    by (simp add: generateResponse_def last_line_def trim_def is_space_def newline_def)
  have b': "spec_response ?p (Some ''echo (d): echo:Q: hi'') = ''line two | echo (d): echo:Q: hi''"
    using inst2 [THEN conjunct2, THEN conjunct1] t b by simp
  have k: "(0::nat) < length (steps sample_workflow)"
    by (simp add: sample_workflow_def)
  have r: "response (trace sample_result ! 0) = ''Q: hi | echo (d): echo:Q: hi''"
    by (simp add: sample_result_def)
  have c0: "response (trace sample_result ! 0)
       = spec_response (prompt (trace sample_result ! 0)) (toolResult (trace sample_result ! 0))"
    using inst [THEN conjunct2, THEN conjunct2] sample_invoke k by blast
  have c: "spec_response (prompt (trace sample_result ! 0)) (toolResult (trace sample_result ! 0))
       = ''Q: hi | echo (d): echo:Q: hi''"
    unfolding c0 [symmetric] by (rule r)
  from a a' t b b' sample_invoke k c show ?thesis by (intro conjI)
qed

text \<open>
  \<open>generateResponse\<close> is private and \<open>invoke\<close> never passes it an empty tool result. Called
  with one, it would treat it as absent.
\<close>

lemma generateResponse_empty_observation:
  "generateResponse ''x'' (Some []) = ''x''"
  by (simp add: generateResponse_def last_line_def trim_def is_space_def newline_def)

end
